theory Spec2Isabelle
  imports Main
begin

section \<open>The drawing canvas component\<close>

text \<open>
  The component \<^verbatim>\<open>DrawingCanvas\<close> keeps five pieces of React state
  (\<^verbatim>\<open>isDrawing\<close>, \<^verbatim>\<open>isEraser\<close>, \<^verbatim>\<open>history\<close>, \<^verbatim>\<open>redoHistory\<close>,
  \<^verbatim>\<open>currentHistoryIndex\<close>) and two refs, the canvas element and its 2D context.
  Every handler of the source becomes a function from the state before the event to the
  state after it. A handler reads the state of the render it was created in and queues
  updater functions; the canvas handlers are rebound on every render and the key listener
  is rebound whenever \<^verbatim>\<open>history\<close> or \<^verbatim>\<open>redoHistory\<close> changes, which every
  effective commit, undo and redo does. So each handler runs on the latest state, and the
  value an updater receives as \<^verbatim>\<open>prev\<close> is the value left by the updater queued before it.
\<close>

subsection \<open>The 2D context\<close>

text \<open>
  The canvas bitmap is the set of its inked pixels: the only stroke style of the source is
  opaque black, so a pixel is either transparent or inked. The two compositing operators
  the source selects are \<^verbatim>\<open>"source-over"\<close> and \<^verbatim>\<open>"destination-out"\<close>.
\<close>

type_synonym point = "int \<times> int"

type_synonym bitmap = "point set"

datatype composite = SourceOver | DestinationOut

datatype subpath = Subpath (start: point) (rest: "point list") (closed: bool)

record context2d =
  bitmap :: bitmap
  globalCompositeOperation :: composite
  lineWidth :: nat
  path :: "subpath list"

text \<open>
  The pixels a stroked path covers are decided by the browser's rasteriser (line width,
  round caps, antialiasing). It is a parameter of the model: a function from the line
  width and the current path to the covered pixels.
\<close>

type_synonym rasteriser = "nat \<Rightarrow> subpath list \<Rightarrow> point set"

text \<open>The canvas element is created with \<^verbatim>\<open>width={1280}\<close> and \<^verbatim>\<open>height={720}\<close>.\<close>

definition in_canvas :: "point \<Rightarrow> bool" where
  "in_canvas p = (0 \<le> fst p \<and> fst p < 1280 \<and> 0 \<le> snd p \<and> snd p < 720)"

text \<open>Only pixels of the canvas can be inked.\<close>

definition clip :: "point set \<Rightarrow> bitmap" where
  "clip A = {p \<in> A. in_canvas p}"

text \<open>
  Painting follows the drawing model of the canvas API: the painted shape or image is
  composited onto the bitmap with the current \<^verbatim>\<open>globalCompositeOperation\<close>.
  Source-over adds the source's pixels; destination-out keeps the destination only where
  the source is transparent. This holds for \<^verbatim>\<open>stroke()\<close> and for \<^verbatim>\<open>drawImage()\<close>
  alike; \<^verbatim>\<open>clearRect()\<close> is not composited.
\<close>

definition composite_onto :: "composite \<Rightarrow> bitmap \<Rightarrow> bitmap \<Rightarrow> bitmap" where
  "composite_onto operator src dst =
     (case operator of SourceOver \<Rightarrow> dst \<union> src | DestinationOut \<Rightarrow> dst - src)"

definition beginPath :: "context2d \<Rightarrow> context2d" where
  "beginPath c = c\<lparr>path := []\<rparr>"

definition moveTo :: "point \<Rightarrow> context2d \<Rightarrow> context2d" where
  "moveTo p c = c\<lparr>path := path c @ [Subpath p [] False]\<rparr>"

definition lineTo :: "point \<Rightarrow> context2d \<Rightarrow> context2d" where
  "lineTo p c =
     (if path c = [] then moveTo p c
      else c\<lparr>path := butlast (path c) @
             [Subpath (start (last (path c))) (rest (last (path c)) @ [p])
                (closed (last (path c)))]\<rparr>)"

definition closePath :: "context2d \<Rightarrow> context2d" where
  "closePath c =
     (if path c = [] then c
      else c\<lparr>path := butlast (path c) @
             [Subpath (start (last (path c))) (rest (last (path c))) True,
              Subpath (start (last (path c))) [] False]\<rparr>)"

definition stroke :: "rasteriser \<Rightarrow> context2d \<Rightarrow> context2d" where
  "stroke cover c =
     c\<lparr>bitmap := composite_onto (globalCompositeOperation c)
          (clip (cover (lineWidth c) (path c))) (bitmap c)\<rparr>"

text \<open>
  The source calls \<^verbatim>\<open>clearRect(0, 0, canvas.width, canvas.height)\<close> only: the whole
  bitmap becomes transparent.
\<close>

definition clearRect :: "context2d \<Rightarrow> context2d" where
  "clearRect c = c\<lparr>bitmap := {}\<rparr>"

text \<open>
  \<^verbatim>\<open>drawImage(img, 0, 0)\<close> with an image of the size of the canvas, which every
  snapshot is.
\<close>

definition drawImage :: "bitmap \<Rightarrow> context2d \<Rightarrow> context2d" where
  "drawImage img c =
     c\<lparr>bitmap := composite_onto (globalCompositeOperation c) img (bitmap c)\<rparr>"

subsection \<open>Snapshots and JavaScript arrays\<close>

text \<open>
  An entry of \<^verbatim>\<open>history\<close> or \<^verbatim>\<open>redoHistory\<close> is a data URL produced by
  \<^verbatim>\<open>canvas.toDataURL()\<close>, a lossless encoding of the bitmap, or \<^verbatim>\<open>undefined\<close>
  when it was read from an array out of range.
\<close>

datatype jsval = Undefined | DataURL bitmap

definition toDataURL :: "context2d \<Rightarrow> jsval" where
  "toDataURL c = DataURL (bitmap c)"

definition js_index :: "jsval list \<Rightarrow> int \<Rightarrow> jsval" where
  "js_index xs i = (if 0 \<le> i \<and> i < int (length xs) then xs ! nat i else Undefined)"

text \<open>\<^verbatim>\<open>Array.prototype.slice(begin, end)\<close>: a negative bound counts from the end.\<close>

definition js_slice :: "int \<Rightarrow> int \<Rightarrow> 'a list \<Rightarrow> 'a list" where
  "js_slice b e xs =
     (let n = int (length xs);
          k = (if b < 0 then max (n + b) 0 else min b n);
          f = (if e < 0 then max (n + e) 0 else min e n)
      in take (nat (f - k)) (drop (nat k) xs))"

subsection \<open>The component state\<close>

text \<open>
  \<^verbatim>\<open>pending\<close> holds the images whose \<^verbatim>\<open>src\<close> has been set and whose
  \<^verbatim>\<open>onload\<close> has not run yet, in the order the requests were issued.
\<close>

record canvas_state =
  isDrawing :: bool
  isEraser :: bool
  history :: "jsval list"
  redoHistory :: "jsval list"
  currentHistoryIndex :: int
  ctx :: context2d
  pending :: "bitmap list"

definition init :: canvas_state where
  "init = \<lparr>isDrawing = False, isEraser = False, history = [], redoHistory = [],
           currentHistoryIndex = - 1,
           ctx = \<lparr>bitmap = {}, globalCompositeOperation = SourceOver, lineWidth = 1,
                  path = []\<rparr>,
           pending = []\<rparr>"

subsection \<open>The handlers\<close>

definition saveStateToHistory :: "canvas_state \<Rightarrow> canvas_state" where
  "saveStateToHistory s =
     (let imageData = toDataURL (ctx s);
          s1 = (if currentHistoryIndex s < int (length (history s)) - 1
                then s\<lparr>history := js_slice 0 (currentHistoryIndex s + 1) (history s)\<rparr>
                else s);
          s2 = s1\<lparr>history := history s1 @ [imageData]\<rparr>;
          s3 = s2\<lparr>currentHistoryIndex := currentHistoryIndex s2 + 1\<rparr>
      in s3\<lparr>redoHistory := []\<rparr>)"

definition startDrawing :: "int \<Rightarrow> point \<Rightarrow> canvas_state \<Rightarrow> canvas_state" where
  "startDrawing button p s =
     (if button = 0 \<or> button = 2 then
        let s1 = s\<lparr>ctx := moveTo p (beginPath (ctx s))\<rparr>;
            s2 = s1\<lparr>isDrawing := True\<rparr>
        in if button = 2 \<or> isEraser s
           then s2\<lparr>ctx := (ctx s2)\<lparr>globalCompositeOperation := DestinationOut,
                                    lineWidth := 20\<rparr>\<rparr>
           else s2\<lparr>ctx := (ctx s2)\<lparr>globalCompositeOperation := SourceOver,
                                    lineWidth := 2\<rparr>\<rparr>
      else s)"

definition draw :: "rasteriser \<Rightarrow> point \<Rightarrow> canvas_state \<Rightarrow> canvas_state" where
  "draw cover p s =
     (if \<not> isDrawing s then s
      else s\<lparr>ctx := stroke cover (lineTo p (ctx s))\<rparr>)"

definition stopDrawing :: "canvas_state \<Rightarrow> canvas_state" where
  "stopDrawing s =
     (let s1 = s\<lparr>ctx := closePath (ctx s)\<rparr>;
          s2 = s1\<lparr>isDrawing := False\<rparr>
      in saveStateToHistory s2)"

text \<open>
  \<^verbatim>\<open>img.src = v\<close>: a data URL starts a decode whose \<^verbatim>\<open>onload\<close> runs later;
  \<^verbatim>\<open>undefined\<close> is no image, and its \<^verbatim>\<open>onload\<close> never runs.
\<close>

definition set_src :: "jsval \<Rightarrow> canvas_state \<Rightarrow> canvas_state" where
  "set_src v s =
     (case v of Undefined \<Rightarrow> s | DataURL img \<Rightarrow> s\<lparr>pending := pending s @ [img]\<rparr>)"

definition undoLastStroke :: "canvas_state \<Rightarrow> canvas_state" where
  "undoLastStroke s =
     (if currentHistoryIndex s > 0 then
        let s1 = s\<lparr>redoHistory := redoHistory s @
                      [js_index (history s) (currentHistoryIndex s)]\<rparr>;
            s2 = s1\<lparr>currentHistoryIndex := currentHistoryIndex s1 - 1\<rparr>;
            prevState = js_index (history s) (currentHistoryIndex s - 1)
        in set_src prevState s2
      else s)"

definition redoLastStroke :: "canvas_state \<Rightarrow> canvas_state" where
  "redoLastStroke s =
     (if length (redoHistory s) > 0 then
        let lastUndoneState =
              js_index (redoHistory s) (int (length (redoHistory s)) - 1);
            s1 = set_src lastUndoneState s;
            s2 = s1\<lparr>history := history s1 @ [lastUndoneState]\<rparr>;
            s3 = s2\<lparr>currentHistoryIndex := currentHistoryIndex s2 + 1\<rparr>
        in s3\<lparr>redoHistory :=
                js_slice 0 (int (length (redoHistory s3)) - 1) (redoHistory s3)\<rparr>
      else s)"

text \<open>The body of both \<^verbatim>\<open>img.onload\<close> callbacks.\<close>

definition onload :: "bitmap \<Rightarrow> canvas_state \<Rightarrow> canvas_state" where
  "onload img s = s\<lparr>ctx := drawImage img (clearRect (ctx s))\<rparr>"

text \<open>
  The key listener. The two tests cannot both hold, since the key is either
  \<^verbatim>\<open>"z"\<close> or \<^verbatim>\<open>"y"\<close>.
\<close>

definition handleKeyDown :: "bool \<Rightarrow> bool \<Rightarrow> string \<Rightarrow> canvas_state \<Rightarrow> canvas_state" where
  "handleKeyDown ctrlKey metaKey key s =
     (let s1 = (if (ctrlKey \<or> metaKey) \<and> key = ''z'' then undoLastStroke s else s)
      in if (ctrlKey \<or> metaKey) \<and> key = ''y'' then redoLastStroke s1 else s1)"

subsection \<open>Events\<close>

text \<open>
  The events the component reacts to: the four mouse events bound on the canvas, the
  key event bound on the document, and the load event of a pending image.
  \<^verbatim>\<open>ImageLoaded k\<close> is the load of the \<open>k\<close>-th pending image; the images may load in
  any order.
\<close>

datatype event =
    MouseDown int point
  | MouseMove point
  | MouseUp
  | MouseLeave
  | KeyDown bool bool string
  | ImageLoaded nat

fun step :: "rasteriser \<Rightarrow> canvas_state \<Rightarrow> event \<Rightarrow> canvas_state" where
  "step cover s (MouseDown button p) = startDrawing button p s"
| "step cover s (MouseMove p) = draw cover p s"
| "step cover s MouseUp = stopDrawing s"
| "step cover s MouseLeave = stopDrawing s"
| "step cover s (KeyDown ctrlKey metaKey key) = handleKeyDown ctrlKey metaKey key s"
| "step cover s (ImageLoaded k) =
     (if k < length (pending s)
      then onload (pending s ! k)
             (s\<lparr>pending := take k (pending s) @ drop (Suc k) (pending s)\<rparr>)
      else s)"

definition run :: "rasteriser \<Rightarrow> canvas_state \<Rightarrow> event list \<Rightarrow> canvas_state" where
  "run cover s evs = foldl (step cover) s evs"

subsection \<open>Auxiliary definitions\<close>

text \<open>
  The strokes of successive pointer moves while the button is held: each move extends
  the path and strokes it.
\<close>

fun draws :: "rasteriser \<Rightarrow> point list \<Rightarrow> context2d \<Rightarrow> context2d" where
  "draws cover [] c = c"
| "draws cover (q # qs) c = draws cover qs (stroke cover (lineTo q c))"

text \<open>
  A rasteriser for concrete runs: it inks exactly the vertices of the path, whatever the
  line width.
\<close>

definition dots :: rasteriser where
  "dots w ps = (\<Union>sp \<in> set ps. set (start sp # rest sp))"

text \<open>
  The invariants of the history: the cursor is within \<open>-1 .. length history - 1\<close>; the
  redo buffer, read from its end, repeats the history entries after the cursor; and no
  history entry is \<^verbatim>\<open>undefined\<close>.
\<close>

definition idx_inv :: "canvas_state \<Rightarrow> bool" where
  "idx_inv s = (- 1 \<le> currentHistoryIndex s \<and>
                currentHistoryIndex s \<le> int (length (history s)) - 1)"

definition redo_inv :: "canvas_state \<Rightarrow> bool" where
  "redo_inv s =
     (take (length (redoHistory s)) (drop (nat (currentHistoryIndex s + 1)) (history s)) =
      rev (redoHistory s))"

definition defined_inv :: "canvas_state \<Rightarrow> bool" where
  "defined_inv s = list_all (\<lambda>v. v \<noteq> Undefined) (history s)"

definition hist_inv :: "canvas_state \<Rightarrow> bool" where
  "hist_inv s = (idx_inv s \<and> redo_inv s \<and> defined_inv s)"

text \<open>The key events: every event on the document that is a key press.\<close>

definition is_KeyDown :: "event \<Rightarrow> bool" where
  "is_KeyDown e = (case e of KeyDown _ _ _ \<Rightarrow> True | _ \<Rightarrow> False)"

subsection \<open>Concrete inputs\<close>

text \<open>
  The inputs of the concrete runs below: the two key bindings, three pen strokes
  (primary button), an eraser stroke (secondary button) that starts where the first pen
  stroke ends, and the states these strokes lead to from the initial state.
\<close>

definition undo_key :: event where
  "undo_key = KeyDown True False ''z''"

definition redo_key :: event where
  "redo_key = KeyDown True False ''y''"

definition pen_A :: "event list" where
  "pen_A = [MouseDown 0 (100, 100), MouseMove (200, 200), MouseUp]"

definition pen_B :: "event list" where
  "pen_B = [MouseDown 0 (300, 300), MouseMove (400, 400), MouseUp]"

definition pen_C :: "event list" where
  "pen_C = [MouseDown 0 (500, 500), MouseMove (600, 600), MouseUp]"

definition eraser_B :: "event list" where
  "eraser_B = [MouseDown 2 (200, 200), MouseMove (300, 300), MouseUp]"

definition state_A :: canvas_state where
  "state_A = run dots init pen_A"

definition state_AB :: canvas_state where
  "state_AB = run dots state_A pen_B"

definition state_ABC :: canvas_state where
  "state_ABC = run dots state_AB pen_C"

definition state_AE :: canvas_state where
  "state_AE = run dots state_A eraser_B"

definition state_ABC_undone :: canvas_state where
  "state_ABC_undone = run dots state_ABC [undo_key, undo_key]"


section \<open>Properties\<close>

subsection \<open>Evaluation lemmas\<close>

lemma clip_empty [simp]: "clip {} = {}"
  by (simp add: clip_def)

lemma clip_insert [simp]:
  "clip (insert p A) = (if in_canvas p then insert p (clip A) else clip A)"
  by (auto simp: clip_def)

lemma js_slice_take: "0 \<le> e \<Longrightarrow> js_slice 0 e xs = take (nat e) xs"
  by (auto simp: js_slice_def Let_def min_def)

lemma js_slice_butlast: "js_slice 0 (int (length xs) - 1) xs = butlast xs"
  by (cases "xs = []") (auto simp: js_slice_def Let_def butlast_conv_take nat_diff_distrib')

lemma js_index_nth: "0 \<le> i \<Longrightarrow> i < int (length xs) \<Longrightarrow> js_index xs i = xs ! nat i"
  by (simp add: js_index_def)

lemma js_index_last: "xs \<noteq> [] \<Longrightarrow> js_index xs (int (length xs) - 1) = last xs"
  by (simp add: js_index_def last_conv_nth nat_diff_distrib')

lemma run_Nil [simp]: "run cover s [] = s"
  by (simp add: run_def)

lemma run_Cons [simp]: "run cover s (e # evs) = run cover (step cover s e) evs"
  by (simp add: run_def)

lemma run_append [simp]: "run cover s (evs @ evs') = run cover (run cover s evs) evs'"
  by (simp add: run_def)

text \<open>What a commit does to a state whose cursor is within the history.\<close>

lemma saveStateToHistory_eq:
  assumes "- 1 \<le> currentHistoryIndex s"
  shows "saveStateToHistory s =
           s\<lparr>history := take (nat (currentHistoryIndex s + 1)) (history s) @
                          [DataURL (bitmap (ctx s))],
             currentHistoryIndex := currentHistoryIndex s + 1,
             redoHistory := []\<rparr>"
proof (cases "currentHistoryIndex s < int (length (history s)) - 1")
  case True
  with assms show ?thesis
    by (simp add: saveStateToHistory_def Let_def toDataURL_def js_slice_take)
next
  case False
  then have "take (nat (currentHistoryIndex s + 1)) (history s) = history s"
    by simp
  with False show ?thesis
    by (simp add: saveStateToHistory_def Let_def toDataURL_def)
qed

lemma stopDrawing_eq:
  assumes "- 1 \<le> currentHistoryIndex s"
  shows "stopDrawing s =
           s\<lparr>ctx := closePath (ctx s), isDrawing := False,
             history := take (nat (currentHistoryIndex s + 1)) (history s) @
                          [DataURL (bitmap (ctx s))],
             currentHistoryIndex := currentHistoryIndex s + 1,
             redoHistory := []\<rparr>"
proof -
  have b: "bitmap (closePath c) = bitmap c" for c
    by (simp add: closePath_def)
  show ?thesis
    using assms by (simp add: stopDrawing_def Let_def saveStateToHistory_eq b)
qed

lemma undoLastStroke_noop: "currentHistoryIndex s \<le> 0 \<Longrightarrow> undoLastStroke s = s"
  by (simp add: undoLastStroke_def)

lemma redoLastStroke_noop: "redoHistory s = [] \<Longrightarrow> redoLastStroke s = s"
  by (simp add: redoLastStroke_def)

lemma undoLastStroke_eq:
  assumes "0 < currentHistoryIndex s"
    and "currentHistoryIndex s \<le> int (length (history s)) - 1"
    and "history s ! nat (currentHistoryIndex s - 1) = DataURL img"
  shows "undoLastStroke s =
           s\<lparr>redoHistory := redoHistory s @ [history s ! nat (currentHistoryIndex s)],
             currentHistoryIndex := currentHistoryIndex s - 1,
             pending := pending s @ [img]\<rparr>"
  using assms by (simp add: undoLastStroke_def Let_def js_index_nth set_src_def)

lemma redoLastStroke_eq:
  assumes "redoHistory s \<noteq> []" and "last (redoHistory s) = DataURL img"
  shows "redoLastStroke s =
           s\<lparr>pending := pending s @ [img],
             history := history s @ [DataURL img],
             currentHistoryIndex := currentHistoryIndex s + 1,
             redoHistory := butlast (redoHistory s)\<rparr>"
  using assms
  by (simp add: redoLastStroke_def Let_def js_index_last set_src_def js_slice_butlast)

lemma ImageLoaded_eq:
  assumes "k < length (pending s)"
  shows "step cover s (ImageLoaded k) =
           s\<lparr>pending := take k (pending s) @ drop (Suc k) (pending s),
             ctx := (ctx s)\<lparr>bitmap :=
                      composite_onto (globalCompositeOperation (ctx s)) (pending s ! k) {}\<rparr>\<rparr>"
  using assms by (simp add: onload_def drawImage_def clearRect_def)

subsection \<open>Invariants\<close>

lemma hist_inv_init: "hist_inv init"
  by (simp add: hist_inv_def idx_inv_def redo_inv_def defined_inv_def init_def)

lemma hist_inv_ctx [simp]: "hist_inv (s\<lparr>ctx := c\<rparr>) = hist_inv s"
  by (simp add: hist_inv_def idx_inv_def redo_inv_def defined_inv_def)

lemma hist_inv_pending [simp]: "hist_inv (s\<lparr>pending := c\<rparr>) = hist_inv s"
  by (simp add: hist_inv_def idx_inv_def redo_inv_def defined_inv_def)

lemma hist_inv_isDrawing [simp]: "hist_inv (s\<lparr>isDrawing := c\<rparr>) = hist_inv s"
  by (simp add: hist_inv_def idx_inv_def redo_inv_def defined_inv_def)

lemma hist_inv_startDrawing: "hist_inv s \<Longrightarrow> hist_inv (startDrawing button p s)"
  by (simp add: startDrawing_def Let_def)

lemma hist_inv_draw: "hist_inv s \<Longrightarrow> hist_inv (draw cover p s)"
  by (simp add: draw_def)

lemma hist_inv_stopDrawing:
  assumes "hist_inv s"
  shows "hist_inv (stopDrawing s)"
proof -
  from assms have i: "- 1 \<le> currentHistoryIndex s"
    and u: "currentHistoryIndex s \<le> int (length (history s)) - 1"
    and d: "list_all (\<lambda>v. v \<noteq> Undefined) (history s)"
    by (simp_all add: hist_inv_def idx_inv_def defined_inv_def)
  from d have "list_all (\<lambda>v. v \<noteq> Undefined) (take n (history s))" for n
    by (auto simp: list_all_iff dest: in_set_takeD)
  with i u show ?thesis
    by (simp add: stopDrawing_eq hist_inv_def idx_inv_def redo_inv_def defined_inv_def)
qed

lemma hist_inv_undoLastStroke:
  assumes "hist_inv s"
  shows "hist_inv (undoLastStroke s)"
proof (cases "0 < currentHistoryIndex s")
  case False
  with assms show ?thesis by (simp add: undoLastStroke_noop)
next
  case True
  let ?i = "currentHistoryIndex s"
  from assms have u: "?i \<le> int (length (history s)) - 1"
    and r: "take (length (redoHistory s)) (drop (nat (?i + 1)) (history s)) =
            rev (redoHistory s)"
    and d: "list_all (\<lambda>v. v \<noteq> Undefined) (history s)"
    by (simp_all add: hist_inv_def idx_inv_def redo_inv_def defined_inv_def)
  from True u have lt: "nat ?i < length (history s)" by arith
  from True u have "nat (?i - 1) < length (history s)" by arith
  with d have "history s ! nat (?i - 1) \<noteq> Undefined"
    by (simp add: list_all_length)
  then obtain img where img: "history s ! nat (?i - 1) = DataURL img"
    by (cases "history s ! nat (?i - 1)") auto
  from True have n: "nat (?i + 1) = Suc (nat ?i)" by arith
  from lt have "drop (nat ?i) (history s) =
                history s ! nat ?i # drop (Suc (nat ?i)) (history s)"
    by (simp add: Cons_nth_drop_Suc)
  with r n have "take (Suc (length (redoHistory s))) (drop (nat ?i) (history s)) =
                 history s ! nat ?i # rev (redoHistory s)"
    by simp
  with True u d show ?thesis
    by (simp add: undoLastStroke_eq [OF True u img] hist_inv_def idx_inv_def redo_inv_def
        defined_inv_def)
qed

text \<open>
  In a state that satisfies the invariant, the entry redo takes from \<^verbatim>\<open>redoHistory\<close>
  is the history entry right after the cursor.
\<close>

lemma last_redoHistory:
  assumes "hist_inv s" and "redoHistory s \<noteq> []"
  shows "nat (currentHistoryIndex s + 1) < length (history s)"
    and "last (redoHistory s) = history s ! nat (currentHistoryIndex s + 1)"
    and "last (redoHistory s) \<noteq> Undefined"
proof -
  let ?k = "nat (currentHistoryIndex s + 1)"
  let ?n = "length (redoHistory s)"
  from assms(1) have r: "take ?n (drop ?k (history s)) = rev (redoHistory s)"
    and d: "list_all (\<lambda>v. v \<noteq> Undefined) (history s)"
    by (simp_all add: hist_inv_def redo_inv_def defined_inv_def)
  from assms(2) have "rev (redoHistory s) \<noteq> []" by simp
  with r have ne: "drop ?k (history s) \<noteq> []" by auto
  then show lt: "?k < length (history s)" by simp
  from assms(2) have "last (redoHistory s) = hd (rev (redoHistory s))"
    by (simp add: hd_rev)
  also from r have "\<dots> = hd (take ?n (drop ?k (history s)))" by simp
  also from assms(2) have "\<dots> = hd (drop ?k (history s))"
    by (cases ?n) simp_all
  also from lt have "\<dots> = history s ! ?k" by (simp add: hd_drop_conv_nth)
  finally show eq: "last (redoHistory s) = history s ! ?k" .
  from d lt have "history s ! ?k \<noteq> Undefined" by (simp add: list_all_length)
  with eq show "last (redoHistory s) \<noteq> Undefined" by simp
qed

lemma hist_inv_redoLastStroke:
  assumes "hist_inv s"
  shows "hist_inv (redoLastStroke s)"
proof (cases "redoHistory s = []")
  case True
  with assms show ?thesis by (simp add: redoLastStroke_noop)
next
  case False
  let ?i = "currentHistoryIndex s"
  let ?k = "nat (?i + 1)"
  let ?n = "length (redoHistory s)"
  note l = last_redoHistory [OF assms False]
  from l(3) obtain img where img: "last (redoHistory s) = DataURL img"
    by (cases "last (redoHistory s)") auto
  from assms have i: "- 1 \<le> ?i" and u: "?i \<le> int (length (history s)) - 1"
    and r: "take ?n (drop ?k (history s)) = rev (redoHistory s)"
    and d: "list_all (\<lambda>v. v \<noteq> Undefined) (history s)"
    by (simp_all add: hist_inv_def idx_inv_def redo_inv_def defined_inv_def)
  from i have k: "nat (?i + 1 + 1) = Suc ?k" by arith
  from l(1) have dk: "drop ?k (history s) = history s ! ?k # drop (Suc ?k) (history s)"
    by (simp add: Cons_nth_drop_Suc)
  from False obtain m where m: "?n = Suc m" by (cases ?n) auto
  from False have rb: "rev (redoHistory s) = last (redoHistory s) # rev (butlast (redoHistory s))"
    by (metis append_butlast_last_id rev_singleton_conv rev_append append_Cons append_Nil)
  from r dk m rb have t: "take m (drop (Suc ?k) (history s)) = rev (butlast (redoHistory s))"
    by simp
  then have "length (take m (drop (Suc ?k) (history s))) = m"
    using m by simp
  then have "m \<le> length (history s) - Suc ?k" by simp
  with t l(1) m have "take (?n - 1) (drop (Suc ?k) (history s @ [DataURL img])) =
                 rev (butlast (redoHistory s))"
    by simp
  with i u d l(1) k show ?thesis
    by (simp add: redoLastStroke_eq [OF False img] hist_inv_def idx_inv_def redo_inv_def
        defined_inv_def)
qed

lemma hist_inv_step: "hist_inv s \<Longrightarrow> hist_inv (step cover s e)"
  by (cases e)
    (simp_all add: hist_inv_startDrawing hist_inv_draw hist_inv_stopDrawing
      hist_inv_undoLastStroke hist_inv_redoLastStroke handleKeyDown_def Let_def onload_def)

lemma hist_inv_run: "hist_inv s \<Longrightarrow> hist_inv (run cover s evs)"
  by (induction evs arbitrary: s) (simp_all add: hist_inv_step)

subsection \<open>Strokes\<close>

lemma draws_mode [simp]:
  "globalCompositeOperation (draws cover qs c) = globalCompositeOperation c"
  by (induction qs arbitrary: c) (simp_all add: stroke_def lineTo_def moveTo_def)

lemma run_moves:
  "isDrawing s \<Longrightarrow> run cover s (map MouseMove qs) = s\<lparr>ctx := draws cover qs (ctx s)\<rparr>"
  by (induction qs arbitrary: s) (simp_all add: draw_def)


lemma closePath_bitmap [simp]: "bitmap (closePath c) = bitmap c"
  by (simp add: closePath_def)

lemma closePath_mode [simp]:
  "globalCompositeOperation (closePath c) = globalCompositeOperation c"
  by (simp add: closePath_def)

text \<open>A completed pen stroke: primary button down, pointer moves, button up.\<close>

lemma pen_stroke:
  assumes "- 1 \<le> currentHistoryIndex s" and "\<not> isEraser s"
  shows "\<exists>c. globalCompositeOperation c = SourceOver \<and>
           run cover s (MouseDown 0 p # map MouseMove qs @ [MouseUp]) =
             s\<lparr>ctx := c, isDrawing := False,
               history := take (nat (currentHistoryIndex s + 1)) (history s) @
                            [DataURL (bitmap c)],
               currentHistoryIndex := currentHistoryIndex s + 1,
               redoHistory := []\<rparr>"
proof -
  let ?t = "startDrawing 0 p s"
  let ?c = "closePath (draws cover qs (ctx ?t))"
  have t: "isDrawing ?t" "globalCompositeOperation (ctx ?t) = SourceOver"
    "currentHistoryIndex ?t = currentHistoryIndex s" "history ?t = history s"
    using assms by (simp_all add: startDrawing_def Let_def)
  have "run cover s (MouseDown 0 p # map MouseMove qs @ [MouseUp]) =
          stopDrawing (?t\<lparr>ctx := draws cover qs (ctx ?t)\<rparr>)"
    using t(1) by (simp add: run_moves)
  also have "\<dots> = s\<lparr>ctx := ?c, isDrawing := False,
               history := take (nat (currentHistoryIndex s + 1)) (history s) @
                            [DataURL (bitmap ?c)],
               currentHistoryIndex := currentHistoryIndex s + 1,
               redoHistory := []\<rparr>"
    using assms by (simp add: stopDrawing_eq t) (simp add: startDrawing_def Let_def)
  finally show ?thesis
    using t(2) by (intro exI [of _ ?c]) simp
qed

lemma composite_onto_blank [simp]:
  "composite_onto SourceOver img {} = img" "composite_onto DestinationOut img {} = {}"
  by (simp_all add: composite_onto_def)

subsection \<open>Reachable states\<close>

lemma reachable_hist_inv: "hist_inv (run cover init evs)"
  by (simp add: hist_inv_run hist_inv_init)

lemma reachable_idx:
  "- 1 \<le> currentHistoryIndex (run cover init evs)"
  "currentHistoryIndex (run cover init evs) \<le> int (length (history (run cover init evs))) - 1"
  using reachable_hist_inv [of cover evs] by (simp_all add: hist_inv_def idx_inv_def)

subsection \<open>Requests and decodes\<close>

lemma undoLastStroke_request:
  assumes "hist_inv s" and "0 < currentHistoryIndex s"
  shows "ctx (undoLastStroke s) = ctx s"
    and "pending (undoLastStroke s) \<noteq> []"
    and "length (pending s) < length (pending (undoLastStroke s))"
    and "js_index (history (undoLastStroke s)) (currentHistoryIndex (undoLastStroke s)) =
         DataURL (last (pending (undoLastStroke s)))"
proof -
  let ?i = "currentHistoryIndex s"
  from assms(1) have u: "?i \<le> int (length (history s)) - 1"
    and d: "list_all (\<lambda>v. v \<noteq> Undefined) (history s)"
    by (simp_all add: hist_inv_def idx_inv_def defined_inv_def)
  from assms(2) u have "nat (?i - 1) < length (history s)" by arith
  with d have "history s ! nat (?i - 1) \<noteq> Undefined"
    by (simp add: list_all_length)
  then obtain img where img: "history s ! nat (?i - 1) = DataURL img"
    by (cases "history s ! nat (?i - 1)") auto
  note e = undoLastStroke_eq [OF assms(2) u img]
  show "ctx (undoLastStroke s) = ctx s" "pending (undoLastStroke s) \<noteq> []"
    "length (pending s) < length (pending (undoLastStroke s))"
    by (simp_all add: e)
  from assms(2) u img
  show "js_index (history (undoLastStroke s)) (currentHistoryIndex (undoLastStroke s)) =
        DataURL (last (pending (undoLastStroke s)))"
    by (simp add: e js_index_def)
qed

lemma redoLastStroke_request:
  assumes "hist_inv s" and "redoHistory s \<noteq> []"
  shows "ctx (redoLastStroke s) = ctx s"
    and "pending (redoLastStroke s) \<noteq> []"
    and "length (pending s) < length (pending (redoLastStroke s))"
    and "js_index (history (redoLastStroke s)) (currentHistoryIndex (redoLastStroke s)) =
         DataURL (last (pending (redoLastStroke s)))"
proof -
  let ?i = "currentHistoryIndex s"
  note l = last_redoHistory [OF assms]
  from l(3) obtain img where img: "last (redoHistory s) = DataURL img"
    by (cases "last (redoHistory s)") auto
  note e = redoLastStroke_eq [OF assms(2) img]
  from assms(1) have i: "- 1 \<le> ?i"
    by (simp add: hist_inv_def idx_inv_def)
  show "ctx (redoLastStroke s) = ctx s" "pending (redoLastStroke s) \<noteq> []"
    "length (pending s) < length (pending (redoLastStroke s))"
    by (simp_all add: e)
  from i l(1) have b: "0 \<le> ?i + 1" "?i + 1 < int (length (history s)) + 1"
    "nat (?i + 1) < length (history s)"
    by simp_all
  from b l(2) img
  show "js_index (history (redoLastStroke s)) (currentHistoryIndex (redoLastStroke s)) =
        DataURL (last (pending (redoLastStroke s)))"
    by (simp add: e js_index_def nth_append)
qed

text \<open>
  A run of key events from a state that satisfies the invariant leaves the context alone;
  either no request was effective, or the last pending decode is the one of the history
  entry at the cursor.
\<close>

lemma key_requests:
  assumes "hist_inv s" and "list_all is_KeyDown reqs"
  shows "ctx (run cover s reqs) = ctx s \<and>
         (run cover s reqs = s \<or>
          length (pending s) < length (pending (run cover s reqs)) \<and>
          js_index (history (run cover s reqs)) (currentHistoryIndex (run cover s reqs)) =
            DataURL (last (pending (run cover s reqs))))"
  using assms(2)
proof (induction reqs rule: rev_induct)
  case Nil
  show ?case by simp
next
  case (snoc e reqs)
  let ?t = "run cover s reqs"
  from snoc.prems have ks: "list_all is_KeyDown reqs" and k: "is_KeyDown e"
    by simp_all
  from snoc.IH [OF ks] have c: "ctx ?t = ctx s"
    and q: "?t = s \<or>
            length (pending s) < length (pending ?t) \<and>
            js_index (history ?t) (currentHistoryIndex ?t) = DataURL (last (pending ?t))"
    by simp_all
  from q have le: "length (pending s) \<le> length (pending ?t)" by auto
  have inv: "hist_inv ?t" using assms(1) by (rule hist_inv_run)
  from k obtain ctrlKey metaKey key where e: "e = KeyDown ctrlKey metaKey key"
    by (cases e) (simp_all add: is_KeyDown_def)
  have "step cover ?t e = undoLastStroke ?t \<or> step cover ?t e = redoLastStroke ?t \<or>
        step cover ?t e = ?t"
    unfolding e by (simp add: handleKeyDown_def Let_def)
  moreover have "undoLastStroke ?t = ?t" if "\<not> 0 < currentHistoryIndex ?t"
    using that by (simp add: undoLastStroke_noop)
  moreover have "redoLastStroke ?t = ?t" if "redoHistory ?t = []"
    using that by (simp add: redoLastStroke_noop)
  ultimately consider (undo) "step cover ?t e = undoLastStroke ?t" "0 < currentHistoryIndex ?t"
    | (redo) "step cover ?t e = redoLastStroke ?t" "redoHistory ?t \<noteq> []"
    | (none) "step cover ?t e = ?t"
    by metis
  then show ?case
  proof cases
    case undo
    from undoLastStroke_request [OF inv undo(2)] c le show ?thesis
      by (simp add: undo(1))
  next
    case redo
    from redoLastStroke_request [OF inv redo(2)] c le show ?thesis
      by (simp add: redo(1))
  next
    case none
    with c q show ?thesis by simp
  qed
qed

text \<open>Decodes completing in issue order, under source-over compositing.\<close>

lemma loads_in_order:
  assumes "pending s = ps" and "ps \<noteq> []"
    and "globalCompositeOperation (ctx s) = SourceOver"
  shows "run cover s (replicate (length ps) (ImageLoaded 0)) =
           s\<lparr>pending := [], ctx := (ctx s)\<lparr>bitmap := last ps\<rparr>\<rparr>"
  using assms
proof (induction ps arbitrary: s)
  case Nil
  then show ?case by simp
next
  case (Cons img ps)
  let ?t = "s\<lparr>pending := ps, ctx := (ctx s)\<lparr>bitmap := img\<rparr>\<rparr>"
  from Cons.prems have t: "step cover s (ImageLoaded 0) = ?t"
    by (simp add: onload_def drawImage_def clearRect_def)
  show ?case
  proof (cases "ps = []")
    case True
    with t show ?thesis by simp
  next
    case False
    from Cons.prems have "run cover ?t (replicate (length ps) (ImageLoaded 0)) =
        ?t\<lparr>pending := [], ctx := (ctx ?t)\<lparr>bitmap := last ps\<rparr>\<rparr>"
      by (intro Cons.IH) (simp_all add: False)
    with t False show ?thesis by simp
  qed
qed

subsection \<open>Concrete runs\<close>

lemmas eval_defs = startDrawing_def draw_def stopDrawing_def saveStateToHistory_def
  handleKeyDown_def undoLastStroke_def redoLastStroke_def onload_def set_src_def
  js_index_def js_slice_def toDataURL_def beginPath_def moveTo_def lineTo_def
  closePath_def stroke_def clearRect_def drawImage_def composite_onto_def in_canvas_def
  dots_def undo_key_def redo_key_def Let_def

lemma state_A_eq:
  "state_A =
     \<lparr>isDrawing = False, isEraser = False, history = [DataURL {(100, 100), (200, 200)}],
      redoHistory = [], currentHistoryIndex = 0,
      ctx = \<lparr>bitmap = {(100, 100), (200, 200)}, globalCompositeOperation = SourceOver,
             lineWidth = 2,
             path = [Subpath (100, 100) [(200, 200)] True, Subpath (100, 100) [] False]\<rparr>,
      pending = []\<rparr>"
  unfolding state_A_def pen_A_def by (simp add: init_def eval_defs)

lemma state_AB_eq:
  "state_AB =
     \<lparr>isDrawing = False, isEraser = False,
      history = [DataURL {(100, 100), (200, 200)},
                 DataURL {(100, 100), (200, 200), (300, 300), (400, 400)}],
      redoHistory = [], currentHistoryIndex = 1,
      ctx = \<lparr>bitmap = {(100, 100), (200, 200), (300, 300), (400, 400)},
             globalCompositeOperation = SourceOver, lineWidth = 2,
             path = [Subpath (300, 300) [(400, 400)] True, Subpath (300, 300) [] False]\<rparr>,
      pending = []\<rparr>"
  unfolding state_AB_def pen_B_def state_A_eq by (simp add: eval_defs) auto

lemma state_ABC_eq:
  "state_ABC =
     \<lparr>isDrawing = False, isEraser = False,
      history = [DataURL {(100, 100), (200, 200)},
                 DataURL {(100, 100), (200, 200), (300, 300), (400, 400)},
                 DataURL {(100, 100), (200, 200), (300, 300), (400, 400), (500, 500),
                          (600, 600)}],
      redoHistory = [], currentHistoryIndex = 2,
      ctx = \<lparr>bitmap = {(100, 100), (200, 200), (300, 300), (400, 400), (500, 500),
                       (600, 600)},
             globalCompositeOperation = SourceOver, lineWidth = 2,
             path = [Subpath (500, 500) [(600, 600)] True, Subpath (500, 500) [] False]\<rparr>,
      pending = []\<rparr>"
  unfolding state_ABC_def pen_C_def state_AB_eq by (simp add: eval_defs) auto

lemma state_AE_eq:
  "state_AE =
     \<lparr>isDrawing = False, isEraser = False,
      history = [DataURL {(100, 100), (200, 200)}, DataURL {(100, 100)}],
      redoHistory = [], currentHistoryIndex = 1,
      ctx = \<lparr>bitmap = {(100, 100)}, globalCompositeOperation = DestinationOut,
             lineWidth = 20,
             path = [Subpath (200, 200) [(300, 300)] True, Subpath (200, 200) [] False]\<rparr>,
      pending = []\<rparr>"
  unfolding state_AE_def eraser_B_def state_A_eq by (simp add: eval_defs) auto


text \<open>The concrete states are reachable from the initial state.\<close>

lemma state_AB_reachable: "state_AB = run dots init (pen_A @ pen_B)"
  by (simp only: state_AB_def state_A_def run_append)

lemma state_ABC_reachable: "state_ABC = run dots init ((pen_A @ pen_B) @ pen_C)"
  by (simp only: state_ABC_def state_AB_def state_A_def run_append)

lemma state_AE_reachable: "state_AE = run dots init (pen_A @ eraser_B)"
  by (simp only: state_AE_def state_A_def run_append)

lemma bitmap_AB_neq_A:
  "{(100, 100), (200, 200), (300, 300), (400, 400)} \<noteq> ({(100, 100), (200, 200)} :: bitmap)"
proof -
  have "(300, 300) \<in> ({(100, 100), (200, 200), (300, 300), (400, 400)} :: bitmap)"
    and "(300, 300) \<notin> ({(100, 100), (200, 200)} :: bitmap)"
    by simp_all
  then show ?thesis by blast
qed

section \<open>The claims\<close>

subsection \<open>The scenario of three strokes\<close>

text \<open>
  Claim C1, as the code behaves. From the initial state, with pen strokes A, B and C and
  every decode completing before the next event: after stroke A and stroke B the history
  is \<open>[A, B]\<close> with the cursor at 1; the first undo shows the state after A and moves the
  cursor to 0; the second undo finds the cursor at 0 and is a no-op, so the surface still
  shows A; the redo shows the state after B and appends B again, so the history is
  \<open>[A, B, B]\<close> with the cursor at 1; committing stroke C truncates the history to two
  entries, appends C and empties the redo buffer, so the history is \<open>[A, B, C]\<close> with the
  cursor at 2; the final redo is a no-op.
\<close>

theorem scenario_as_coded:
  "let undo = KeyDown True False ''z''; redo = KeyDown True False ''y'';
       sA = run cover init (MouseDown 0 pA # map MouseMove qsA @ [MouseUp]);
       sB = run cover sA (MouseDown 0 pB # map MouseMove qsB @ [MouseUp]);
       s1 = run cover sB [undo, ImageLoaded 0];
       s2 = step cover s1 undo;
       s3 = run cover s2 [redo, ImageLoaded 0];
       sC = run cover s3 (MouseDown 0 pC # map MouseMove qsC @ [MouseUp]);
       s4 = step cover sC redo;
       A = DataURL (bitmap (ctx sA)); B = DataURL (bitmap (ctx sB));
       C = DataURL (bitmap (ctx sC))
   in history sB = [A, B] \<and> currentHistoryIndex sB = 1 \<and>
      DataURL (bitmap (ctx s1)) = A \<and> currentHistoryIndex s1 = 0 \<and>
      s2 = s1 \<and>
      DataURL (bitmap (ctx s3)) = B \<and> history s3 = [A, B, B] \<and>
      currentHistoryIndex s3 = 1 \<and>
      history sC = [A, B, C] \<and> currentHistoryIndex sC = 2 \<and> redoHistory sC = [] \<and>
      s4 = sC"
proof -
  define sA where "sA = run cover init (MouseDown 0 pA # map MouseMove qsA @ [MouseUp])"
  define sB where "sB = run cover sA (MouseDown 0 pB # map MouseMove qsB @ [MouseUp])"
  define s1 where "s1 = run cover sB [KeyDown True False ''z'', ImageLoaded 0]"
  define s3 where "s3 = run cover s1 [KeyDown True False ''y'', ImageLoaded 0]"
  define sC where "sC = run cover s3 (MouseDown 0 pC # map MouseMove qsC @ [MouseUp])"
  obtain cA where cA: "globalCompositeOperation cA = SourceOver"
    and A: "sA = init\<lparr>ctx := cA, isDrawing := False, history := [DataURL (bitmap cA)],
                  currentHistoryIndex := 0, redoHistory := []\<rparr>"
    using pen_stroke [of init cover pA qsA] unfolding sA_def by (auto simp: init_def)
  have "- 1 \<le> currentHistoryIndex sA" "\<not> isEraser sA"
    by (simp_all add: A init_def)
  from pen_stroke [OF this, of cover pB qsB]
  obtain cB where cB: "globalCompositeOperation cB = SourceOver"
    and B: "sB = init\<lparr>ctx := cB, isDrawing := False,
                  history := [DataURL (bitmap cA), DataURL (bitmap cB)],
                  currentHistoryIndex := 1, redoHistory := []\<rparr>"
    unfolding sB_def [symmetric] by (auto simp: A init_def)
  have u: "undoLastStroke sB =
             sB\<lparr>redoHistory := [DataURL (bitmap cB)], currentHistoryIndex := 0,
                pending := [bitmap cA]\<rparr>"
    by (simp add: undoLastStroke_def Let_def js_index_def set_src_def B init_def)
  have 1: "s1 = sB\<lparr>redoHistory := [DataURL (bitmap cB)], currentHistoryIndex := 0,
                   pending := [], ctx := cB\<lparr>bitmap := bitmap cA\<rparr>\<rparr>"
    unfolding s1_def
    by (simp add: handleKeyDown_def u onload_def drawImage_def clearRect_def)
      (simp add: B cB)
  have 2: "step cover s1 (KeyDown True False ''z'') = s1"
    by (simp add: handleKeyDown_def undoLastStroke_noop 1)
  have r: "redoLastStroke s1 =
             s1\<lparr>pending := [bitmap cB],
                history := [DataURL (bitmap cA), DataURL (bitmap cB), DataURL (bitmap cB)],
                currentHistoryIndex := 1, redoHistory := []\<rparr>"
    by (simp add: redoLastStroke_def Let_def js_index_def set_src_def js_slice_def 1 B init_def)
  have 3: "s3 = s1\<lparr>pending := [],
                history := [DataURL (bitmap cA), DataURL (bitmap cB), DataURL (bitmap cB)],
                currentHistoryIndex := 1, redoHistory := [], ctx := cB\<rparr>"
    unfolding s3_def
    by (simp add: handleKeyDown_def r onload_def drawImage_def clearRect_def)
      (simp add: 1 B cB)
  have "- 1 \<le> currentHistoryIndex s3" "\<not> isEraser s3"
    by (simp_all add: 3 1 B init_def)
  from pen_stroke [OF this, of cover pC qsC]
  obtain cC where C: "history sC = [DataURL (bitmap cA), DataURL (bitmap cB), DataURL (bitmap cC)]"
      "currentHistoryIndex sC = 2" "redoHistory sC = []" "ctx sC = cC"
    unfolding sC_def [symmetric] by (auto simp: 3 1 B init_def)
  have 4: "step cover sC (KeyDown True False ''y'') = sC"
    by (simp add: handleKeyDown_def redoLastStroke_noop C)
  show ?thesis
    unfolding Let_def sA_def [symmetric] sB_def [symmetric] s1_def [symmetric] 2
      s3_def [symmetric] sC_def [symmetric] 4
    by (simp add: C) (simp add: 3 1 B A)
qed

text \<open>
  Counterexample to claim C1 as stated, with three concrete pen strokes: after the second
  undo the cursor is 0, not \<open>-1\<close>, and the surface still shows stroke A, not a blank
  canvas; the following redo shows the state after B, not the state after A; and at the
  end the history has the three entries \<open>[A, B, C]\<close>, not \<open>[A, C]\<close>.
\<close>

theorem scenario_counterexample:
  "currentHistoryIndex (run dots state_AB [undo_key, ImageLoaded 0, undo_key]) = 0 \<and>
   currentHistoryIndex (run dots state_AB [undo_key, ImageLoaded 0, undo_key]) \<noteq> - 1 \<and>
   bitmap (ctx (run dots state_AB [undo_key, ImageLoaded 0, undo_key])) =
     {(100, 100), (200, 200)} \<and>
   bitmap (ctx (run dots state_AB [undo_key, ImageLoaded 0, undo_key])) \<noteq> {} \<and>
   bitmap (ctx (run dots state_AB
     [undo_key, ImageLoaded 0, undo_key, redo_key, ImageLoaded 0])) =
     {(100, 100), (200, 200), (300, 300), (400, 400)} \<and>
   bitmap (ctx (run dots state_AB
     [undo_key, ImageLoaded 0, undo_key, redo_key, ImageLoaded 0])) \<noteq>
     {(100, 100), (200, 200)} \<and>
   length (history (run dots state_AB
     ([undo_key, ImageLoaded 0, undo_key, redo_key, ImageLoaded 0] @ pen_C @ [redo_key]))) = 3"
proof -
  let ?A = "{(100, 100), (200, 200)} :: bitmap"
    and ?B = "{(100, 100), (200, 200), (300, 300), (400, 400)} :: bitmap"
  let ?c = "\<lparr>bitmap = ?A, globalCompositeOperation = SourceOver, lineWidth = 2,
             path = [Subpath (300, 300) [(400, 400)] True, Subpath (300, 300) [] False]\<rparr>"
  let ?S2 = "\<lparr>isDrawing = False, isEraser = False, history = [DataURL ?A, DataURL ?B],
              redoHistory = [DataURL ?B], currentHistoryIndex = 0, ctx = ?c, pending = []\<rparr>"
  let ?S3 = "\<lparr>isDrawing = False, isEraser = False,
              history = [DataURL ?A, DataURL ?B, DataURL ?B],
              redoHistory = [], currentHistoryIndex = 1, ctx = ?c\<lparr>bitmap := ?B\<rparr>,
              pending = []\<rparr>"
  have 2: "run dots state_AB [undo_key, ImageLoaded 0, undo_key] = ?S2"
    unfolding state_AB_eq by (simp add: eval_defs)
  have 3: "run dots ?S2 [redo_key, ImageLoaded 0] = ?S3"
    by (simp add: eval_defs)
  have 4: "length (history (run dots ?S3 (pen_C @ [redo_key]))) = 3"
    unfolding pen_C_def by (simp add: eval_defs)
  have 23: "run dots state_AB [undo_key, ImageLoaded 0, undo_key, redo_key, ImageLoaded 0] =
            ?S3"
    using run_append [of dots state_AB "[undo_key, ImageLoaded 0, undo_key]"
        "[redo_key, ImageLoaded 0]"]
    unfolding 2 3 by simp
  have 234: "length (history (run dots state_AB
       ([undo_key, ImageLoaded 0, undo_key, redo_key, ImageLoaded 0] @ pen_C @ [redo_key]))) = 3"
    unfolding run_append [of dots state_AB
        "[undo_key, ImageLoaded 0, undo_key, redo_key, ImageLoaded 0]"] 23
    by (rule 4)
  show ?thesis
    unfolding 2 23 234 using bitmap_AB_neq_A by simp
qed

subsection \<open>Decodes completing out of order\<close>

text \<open>
  Claim C2, as the code behaves. Neither \<^verbatim>\<open>onload\<close> callback checks that its request
  is still the latest: each completing decode clears the canvas and draws its own
  snapshot. For undo and redo requests issued from a reachable state under source-over
  compositing, the load of the \<open>k\<close>-th pending image leaves exactly that image on the
  surface, whatever was requested after it; and when at least one request was effective
  and all pending decodes complete in issue order, the surface ends as the history entry
  at the cursor, which is the target of the last request.
\<close>

theorem decodes_overwrite:
  "let s = run cover init evs; s1 = run cover s reqs;
       s2 = run cover s1 (replicate (length (pending s1)) (ImageLoaded 0))
   in list_all is_KeyDown reqs \<longrightarrow> globalCompositeOperation (ctx s) = SourceOver \<longrightarrow>
      (length (pending s) < length (pending s1) \<longrightarrow>
         pending s2 = [] \<and> history s2 = history s1 \<and>
         currentHistoryIndex s2 = currentHistoryIndex s1 \<and>
         js_index (history s2) (currentHistoryIndex s2) = DataURL (bitmap (ctx s2))) \<and>
      (\<forall>k < length (pending s1).
         bitmap (ctx (step cover s1 (ImageLoaded k))) = pending s1 ! k)"
proof -
  define s where "s = run cover init evs"
  define s1 where "s1 = run cover s reqs"
  define s2 where "s2 = run cover s1 (replicate (length (pending s1)) (ImageLoaded 0))"
  have inv: "hist_inv s" unfolding s_def by (rule reachable_hist_inv)
  have "pending s2 = [] \<and> history s2 = history s1 \<and>
        currentHistoryIndex s2 = currentHistoryIndex s1 \<and>
        js_index (history s2) (currentHistoryIndex s2) = DataURL (bitmap (ctx s2))"
    if k: "list_all is_KeyDown reqs" and m: "globalCompositeOperation (ctx s) = SourceOver"
      and n: "length (pending s) < length (pending s1)"
  proof -
    from key_requests [OF inv k, of cover] n
    have c: "ctx s1 = ctx s"
      and q: "js_index (history s1) (currentHistoryIndex s1) = DataURL (last (pending s1))"
      unfolding s1_def by auto
    from n have ne: "pending s1 \<noteq> []" by auto
    from c m have "globalCompositeOperation (ctx s1) = SourceOver" by simp
    from loads_in_order [OF refl ne this, of cover]
    have "s2 = s1\<lparr>pending := [], ctx := (ctx s1)\<lparr>bitmap := last (pending s1)\<rparr>\<rparr>"
      unfolding s2_def .
    with q show ?thesis by simp
  qed
  moreover have "bitmap (ctx (step cover s1 (ImageLoaded k))) = pending s1 ! k"
    if k: "list_all is_KeyDown reqs" and m: "globalCompositeOperation (ctx s) = SourceOver"
      and n: "k < length (pending s1)" for k
  proof -
    from key_requests [OF inv k, of cover] have "ctx s1 = ctx s"
      unfolding s1_def by simp
    with m n show ?thesis
      by (simp add: onload_def drawImage_def clearRect_def)
  qed
  ultimately show ?thesis
    unfolding Let_def s_def [symmetric] s1_def [symmetric] s2_def [symmetric] by blast
qed

text \<open>
  The theorem at a concrete input: after three pen strokes, two undo requests are issued
  and their decodes complete in issue order.
\<close>

theorem decodes_overwrite_witness:
  "list_all is_KeyDown [undo_key, undo_key] \<and>
   globalCompositeOperation (ctx state_ABC) = SourceOver \<and>
   length (pending state_ABC) < length (pending state_ABC_undone) \<and>
   pending (run dots state_ABC_undone (replicate 2 (ImageLoaded 0))) = [] \<and>
   js_index (history (run dots state_ABC_undone (replicate 2 (ImageLoaded 0))))
     (currentHistoryIndex (run dots state_ABC_undone (replicate 2 (ImageLoaded 0)))) =
     DataURL (bitmap (ctx (run dots state_ABC_undone (replicate 2 (ImageLoaded 0))))) \<and>
   bitmap (ctx (step dots state_ABC_undone (ImageLoaded 0))) = pending state_ABC_undone ! 0 \<and>
   bitmap (ctx (step dots state_ABC_undone (ImageLoaded 1))) = pending state_ABC_undone ! 1"
proof -
  have k: "list_all is_KeyDown [undo_key, undo_key]"
    by (simp add: is_KeyDown_def undo_key_def)
  have m: "globalCompositeOperation (ctx state_ABC) = SourceOver"
    unfolding state_ABC_eq by simp
  have p: "pending state_ABC = []"
    unfolding state_ABC_eq by simp
  have n: "length (pending state_ABC_undone) = 2"
    unfolding state_ABC_undone_def state_ABC_eq by (simp add: eval_defs)
  have lt: "length (pending state_ABC) < 2"
    unfolding p by simp
  have b: "(0::nat) < 2" "(1::nat) < 2"
    by simp_all
  note w = decodes_overwrite [of dots "(pen_A @ pen_B) @ pen_C" "[undo_key, undo_key]",
      unfolded Let_def state_ABC_reachable [symmetric] state_ABC_undone_def [symmetric] n,
      THEN mp, OF k, THEN mp, OF m]
  note w1 = w [THEN conjunct1, THEN mp, OF lt]
  note w2 = w [THEN conjunct2, THEN spec, THEN mp]
  from k m lt w1 w2 [OF b(1)] w2 [OF b(2)] show ?thesis
    unfolding n by blast
qed

text \<open>
  Counterexample to claim C2 as stated: after three pen strokes, two undo requests are
  issued and the decode of the second completes before the decode of the first. When both
  have completed, the cursor is 0 and the history entry there is the state after A, but
  the surface shows the state after B, the target of the earlier request.
\<close>

theorem stale_decode_counterexample:
  "pending (run dots state_ABC [undo_key, undo_key, ImageLoaded 1, ImageLoaded 0]) = [] \<and>
   currentHistoryIndex
     (run dots state_ABC [undo_key, undo_key, ImageLoaded 1, ImageLoaded 0]) = 0 \<and>
   js_index (history (run dots state_ABC [undo_key, undo_key, ImageLoaded 1, ImageLoaded 0]))
     0 = DataURL {(100, 100), (200, 200)} \<and>
   bitmap (ctx (run dots state_ABC [undo_key, undo_key, ImageLoaded 1, ImageLoaded 0])) =
     {(100, 100), (200, 200), (300, 300), (400, 400)} \<and>
   bitmap (ctx (run dots state_ABC [undo_key, undo_key, ImageLoaded 1, ImageLoaded 0])) \<noteq>
     {(100, 100), (200, 200)}"
proof -
  have "run dots state_ABC [undo_key, undo_key, ImageLoaded 1, ImageLoaded 0] =
     \<lparr>isDrawing = False, isEraser = False,
      history = [DataURL {(100, 100), (200, 200)},
                 DataURL {(100, 100), (200, 200), (300, 300), (400, 400)},
                 DataURL {(100, 100), (200, 200), (300, 300), (400, 400), (500, 500),
                          (600, 600)}],
      redoHistory = [DataURL {(100, 100), (200, 200), (300, 300), (400, 400), (500, 500),
                              (600, 600)},
                     DataURL {(100, 100), (200, 200), (300, 300), (400, 400)}],
      currentHistoryIndex = 0,
      ctx = \<lparr>bitmap = {(100, 100), (200, 200), (300, 300), (400, 400)},
             globalCompositeOperation = SourceOver, lineWidth = 2,
             path = [Subpath (500, 500) [(600, 600)] True, Subpath (500, 500) [] False]\<rparr>,
      pending = []\<rparr>"
    unfolding state_ABC_eq by (simp add: eval_defs)
  then show ?thesis
    using bitmap_AB_neq_A by (simp add: js_index_def)
qed

subsection \<open>Committing a stroke\<close>

text \<open>
  Claim C3. In every reachable state, pointer-up and pointer-leave both run
  \<^verbatim>\<open>stopDrawing\<close>, which commits: the history is truncated to \<open>currentIndex + 1\<close>
  entries and a snapshot of the current surface is appended, the cursor advances by one,
  the redo buffer is emptied and \<^verbatim>\<open>isDrawing\<close> becomes false; the surface itself is
  not changed, and the history entry at the new cursor is the snapshot of the live
  surface.
\<close>

theorem endStroke_commits:
  "let s = run cover init evs; s' = stopDrawing s
   in step cover s MouseUp = s' \<and> step cover s MouseLeave = s' \<and>
      history s' = take (nat (currentHistoryIndex s + 1)) (history s) @
                     [DataURL (bitmap (ctx s))] \<and>
      int (length (history s')) = currentHistoryIndex s + 2 \<and>
      currentHistoryIndex s' = currentHistoryIndex s + 1 \<and>
      redoHistory s' = [] \<and> \<not> isDrawing s' \<and>
      bitmap (ctx s') = bitmap (ctx s) \<and>
      js_index (history s') (currentHistoryIndex s') = DataURL (bitmap (ctx s'))"
proof -
  define s where "s = run cover init evs"
  have i: "- 1 \<le> currentHistoryIndex s"
    and u: "currentHistoryIndex s \<le> int (length (history s)) - 1"
    unfolding s_def by (rule reachable_idx)+
  from i u have l: "length (take (nat (currentHistoryIndex s + 1)) (history s)) =
                    nat (currentHistoryIndex s + 1)"
    by simp
  from i have n: "nat (currentHistoryIndex s + 1) =
                  length (take (nat (currentHistoryIndex s + 1)) (history s))"
    using l by simp
  have "js_index (take (nat (currentHistoryIndex s + 1)) (history s) @
                    [DataURL (bitmap (ctx s))]) (currentHistoryIndex s + 1) =
        DataURL (bitmap (ctx s))"
    using i l by (simp add: js_index_def nth_append)
  with i u l show ?thesis
    unfolding Let_def s_def [symmetric] by (simp add: stopDrawing_eq)
qed

subsection \<open>Branch discard\<close>

lemma redoHistory_stopDrawing [simp]: "redoHistory (stopDrawing s) = []"
  by (simp add: stopDrawing_def saveStateToHistory_def Let_def)









subsection \<open>Precondition violations\<close>

text \<open>
  Claim C7. No handler has an error result: each is a total function on states. When its
  precondition fails it returns the state unchanged: undo with the cursor at 0 or below,
  undo with an empty history (where the cursor is \<open>-1\<close>), redo with an empty redo buffer,
  and a pointer move while no stroke is active.
\<close>

theorem precondition_violations_are_noops:
  "(currentHistoryIndex s \<le> 0 \<longrightarrow>
      undoLastStroke s = s \<and> step cover s (KeyDown ctrlKey metaKey ''z'') = s) \<and>
   (history s = [] \<and> idx_inv s \<longrightarrow> undoLastStroke s = s) \<and>
   (redoHistory s = [] \<longrightarrow>
      redoLastStroke s = s \<and> step cover s (KeyDown ctrlKey metaKey ''y'') = s) \<and>
   (\<not> isDrawing s \<longrightarrow> draw cover p s = s \<and> step cover s (MouseMove p) = s)"
  by (auto simp: undoLastStroke_noop redoLastStroke_noop handleKeyDown_def draw_def idx_inv_def)

text \<open>The theorem at the initial state, where all four preconditions fail.\<close>

theorem precondition_violations_witness:
  "currentHistoryIndex init \<le> 0 \<and> history init = [] \<and> idx_inv init \<and>
   redoHistory init = [] \<and> \<not> isDrawing init \<and>
   undoLastStroke init = init \<and> redoLastStroke init = init \<and>
   draw dots (3, 4) init = init \<and>
   step dots init (KeyDown True False ''z'') = init \<and>
   step dots init (KeyDown False True ''y'') = init"
proof -
  have h: "currentHistoryIndex init \<le> 0" "history init = []" "idx_inv init"
    "redoHistory init = []" "\<not> isDrawing init"
    by (simp_all add: init_def idx_inv_def)
  from precondition_violations_are_noops [of init dots True False "(3, 4)"]
    precondition_violations_are_noops [of init dots False True "(3, 4)"] h
  show ?thesis by blast
qed

subsection \<open>Mode selection\<close>

text \<open>
  Claim C8. A pointer-down with the secondary button, or with the primary button while
  the eraser toggle is on, starts a stroke in erase mode (destination-out compositing,
  line width 20); with the primary button and the eraser toggle off it starts a stroke in
  pen mode (source-over compositing, line width 2); with any other button it leaves the
  state unchanged.
\<close>

theorem mode_selection:
  "(button = 2 \<or> (button = 0 \<and> isEraser s) \<longrightarrow>
      (let s' = step cover s (MouseDown button p)
       in isDrawing s' \<and> globalCompositeOperation (ctx s') = DestinationOut \<and>
          lineWidth (ctx s') = 20 \<and> path (ctx s') = [Subpath p [] False])) \<and>
   (button = 0 \<and> \<not> isEraser s \<longrightarrow>
      (let s' = step cover s (MouseDown button p)
       in isDrawing s' \<and> globalCompositeOperation (ctx s') = SourceOver \<and>
          lineWidth (ctx s') = 2 \<and> path (ctx s') = [Subpath p [] False])) \<and>
   (button \<noteq> 0 \<and> button \<noteq> 2 \<longrightarrow> step cover s (MouseDown button p) = s)"
  by (simp add: startDrawing_def Let_def beginPath_def moveTo_def)

text \<open>
  The theorem at the initial state, for the secondary button, the primary button with the
  eraser toggle on and off, and the middle button.
\<close>

theorem mode_selection_witness:
  "globalCompositeOperation (ctx (step dots init (MouseDown 2 (3, 4)))) = DestinationOut \<and>
   lineWidth (ctx (step dots init (MouseDown 2 (3, 4)))) = 20 \<and>
   globalCompositeOperation (ctx (step dots (init\<lparr>isEraser := True\<rparr>) (MouseDown 0 (3, 4)))) =
     DestinationOut \<and>
   \<not> isEraser init \<and>
   globalCompositeOperation (ctx (step dots init (MouseDown 0 (3, 4)))) = SourceOver \<and>
   lineWidth (ctx (step dots init (MouseDown 0 (3, 4)))) = 2 \<and>
   isDrawing (step dots init (MouseDown 0 (3, 4))) \<and>
   step dots init (MouseDown 1 (3, 4)) = init"
proof -
  have e: "\<not> isEraser init" "isEraser (init\<lparr>isEraser := True\<rparr>)"
    by (simp_all add: init_def)
  from mode_selection [of 2 init dots "(3, 4)"]
    mode_selection [of 0 "init\<lparr>isEraser := True\<rparr>" dots "(3, 4)"]
    mode_selection [of 0 init dots "(3, 4)"]
    mode_selection [of 1 init dots "(3, 4)"] e
  show ?thesis unfolding Let_def by simp
qed

subsection \<open>Pointer-up and pointer-leave without a stroke\<close>

text \<open>
  Claim C9. In every reachable state with no stroke active, a pointer-up or a
  pointer-leave, also after a pointer move, still commits: a snapshot of the unchanged
  surface is appended to the truncated history, the cursor advances and the redo buffer
  is emptied; two such events in a row append the same snapshot twice.
\<close>

theorem stopDrawing_without_stroke:
  "let s = run cover init evs; s' = step cover s MouseLeave;
       snapshot = DataURL (bitmap (ctx s))
   in \<not> isDrawing s \<longrightarrow>
      step cover s MouseUp = s' \<and>
      run cover s [MouseMove p, MouseLeave] = s' \<and>
      history s' = take (nat (currentHistoryIndex s + 1)) (history s) @ [snapshot] \<and>
      currentHistoryIndex s' = currentHistoryIndex s + 1 \<and>
      redoHistory s' = [] \<and>
      bitmap (ctx s') = bitmap (ctx s) \<and>
      history (run cover s [MouseLeave, MouseLeave]) =
        take (nat (currentHistoryIndex s + 1)) (history s) @ [snapshot, snapshot]"
proof -
  define s where "s = run cover init evs"
  have i: "- 1 \<le> currentHistoryIndex s"
    and u: "currentHistoryIndex s \<le> int (length (history s)) - 1"
    unfolding s_def by (rule reachable_idx)+
  from i u have n: "nat (currentHistoryIndex s + 1 + 1) =
      Suc (length (take (nat (currentHistoryIndex s + 1)) (history s)))"
    by simp
  from i u show ?thesis
    unfolding Let_def s_def [symmetric]
    by (simp add: stopDrawing_eq draw_def n)
qed

text \<open>The theorem at the initial state: pointer moves and leaves, no button pressed.\<close>

theorem stopDrawing_without_stroke_witness:
  "\<not> isDrawing (run dots init []) \<and>
   history (run dots (run dots init []) [MouseMove (3, 4), MouseLeave]) = [DataURL {}] \<and>
   history (run dots (run dots init []) [MouseLeave, MouseLeave]) = [DataURL {}, DataURL {}] \<and>
   currentHistoryIndex (step dots (run dots init []) MouseLeave) = 0"
proof -
  have h: "\<not> isDrawing (run dots init [])" "currentHistoryIndex (run dots init []) = - 1"
    "bitmap (ctx (run dots init [])) = {}"
    by (simp_all add: init_def)
  from stopDrawing_without_stroke [of dots "[]" "(3, 4)"] h
  show ?thesis unfolding Let_def by simp
qed

subsection \<open>Restoring a snapshot\<close>

text \<open>
  Under source-over compositing an undo or a redo from a state that satisfies the
  invariant, once its decode has completed, leaves the surface equal to the history entry
  at the cursor.
\<close>

lemma undo_then_load:
  assumes "hist_inv s" and "0 < currentHistoryIndex s"
    and "globalCompositeOperation (ctx s) = SourceOver"
  shows "js_index
           (history (step cover (undoLastStroke s) (ImageLoaded (length (pending s)))))
           (currentHistoryIndex
             (step cover (undoLastStroke s) (ImageLoaded (length (pending s))))) =
         DataURL (bitmap (ctx
           (step cover (undoLastStroke s) (ImageLoaded (length (pending s))))))"
proof -
  let ?i = "currentHistoryIndex s"
  from assms(1) have u: "?i \<le> int (length (history s)) - 1"
    and d: "list_all (\<lambda>v. v \<noteq> Undefined) (history s)"
    by (simp_all add: hist_inv_def idx_inv_def defined_inv_def)
  from assms(2) u have "nat (?i - 1) < length (history s)" by arith
  with d have "history s ! nat (?i - 1) \<noteq> Undefined"
    by (simp add: list_all_length)
  then obtain img where img: "history s ! nat (?i - 1) = DataURL img"
    by (cases "history s ! nat (?i - 1)") auto
  from assms(2,3) u img show ?thesis
    by (simp add: undoLastStroke_eq [OF assms(2) u img] onload_def drawImage_def
        clearRect_def js_index_def)
qed

lemma redo_then_load:
  assumes "hist_inv s" and "redoHistory s \<noteq> []"
    and "globalCompositeOperation (ctx s) = SourceOver"
  shows "js_index
           (history (step cover (redoLastStroke s) (ImageLoaded (length (pending s)))))
           (currentHistoryIndex
             (step cover (redoLastStroke s) (ImageLoaded (length (pending s))))) =
         DataURL (bitmap (ctx
           (step cover (redoLastStroke s) (ImageLoaded (length (pending s))))))"
proof -
  let ?i = "currentHistoryIndex s"
  note l = last_redoHistory [OF assms(1,2)]
  from l(3) obtain img where img: "last (redoHistory s) = DataURL img"
    by (cases "last (redoHistory s)") auto
  from assms(1) have i: "- 1 \<le> ?i"
    by (simp add: hist_inv_def idx_inv_def)
  from i l(1) have b: "0 \<le> ?i + 1" "?i + 1 < int (length (history s)) + 1"
    "nat (?i + 1) < length (history s)"
    by simp_all
  from b l(2) img assms(3) show ?thesis
    by (simp add: redoLastStroke_eq [OF assms(2) img] onload_def drawImage_def
        clearRect_def js_index_def nth_append)
qed

text \<open>
  Under destination-out compositing a completed decode leaves the surface blank, whatever
  the snapshot was: the snapshot is drawn onto the cleared canvas with the operator that
  only removes pixels.
\<close>

lemma load_in_erase_mode:
  assumes "globalCompositeOperation (ctx s) = DestinationOut" and "k < length (pending s)"
  shows "bitmap (ctx (step cover s (ImageLoaded k))) = {}"
  using assms by (simp add: onload_def drawImage_def clearRect_def)

text \<open>
  Claim C4, at an input where the code breaks it. The cursor stays within
  \<open>-1 .. length history - 1\<close> in every reachable state (lemma \<open>reachable_idx\<close>), and
  under source-over compositing the surface equals the history entry at the cursor after
  an undo or a redo has completed its decode (lemmas \<open>undo_then_load\<close> and
  \<open>redo_then_load\<close>). But \<^verbatim>\<open>onload\<close> draws the snapshot with the compositing operator
  the last stroke left in the context. After a pen stroke and an eraser stroke, that is
  destination-out: drawn onto the cleared canvas, the snapshot leaves it blank. Here undo
  and then redo have completed their decodes, the cursor is 1 and the history entry
  there holds the pixel \<open>(100, 100)\<close>, but the surface is blank.
\<close>

theorem redo_after_erasing_blank:
  "state_AE = run dots init (pen_A @ eraser_B) \<and>
   pending (run dots state_AE [undo_key, ImageLoaded 0, redo_key, ImageLoaded 0]) = [] \<and>
   currentHistoryIndex
     (run dots state_AE [undo_key, ImageLoaded 0, redo_key, ImageLoaded 0]) = 1 \<and>
   js_index (history (run dots state_AE [undo_key, ImageLoaded 0, redo_key, ImageLoaded 0]))
     1 = DataURL {(100, 100)} \<and>
   bitmap (ctx (run dots state_AE [undo_key, ImageLoaded 0, redo_key, ImageLoaded 0])) = {}"
proof -
  have "run dots state_AE [undo_key, ImageLoaded 0, redo_key, ImageLoaded 0] =
        \<lparr>isDrawing = False, isEraser = False,
         history = [DataURL {(100, 100), (200, 200)}, DataURL {(100, 100)}, DataURL {(100, 100)}],
         redoHistory = [], currentHistoryIndex = 1,
         ctx = \<lparr>bitmap = {}, globalCompositeOperation = DestinationOut, lineWidth = 20,
                path = [Subpath (200, 200) [(300, 300)] True, Subpath (200, 200) [] False]\<rparr>,
         pending = []\<rparr>"
    unfolding state_AE_eq by (simp add: eval_defs)
  then show ?thesis
    using state_AE_reachable by (simp add: js_index_def)
qed

text \<open>
  Claim C5, at an input where the code breaks it. With the cursor at 0 or below undo
  returns the state unchanged (lemma \<open>undoLastStroke_noop\<close>); with the cursor above 0 it
  pushes the entry at the cursor onto the redo buffer, decrements the cursor and requests
  the decode of the entry at the new cursor (lemma \<open>undoLastStroke_eq\<close>). But after a pen
  stroke and an eraser stroke the context is left in destination-out compositing, and
  the completed decode leaves the surface blank, while the history entry at the new
  cursor holds the pixels \<open>(100, 100)\<close> and \<open>(200, 200)\<close> of the pen stroke.
\<close>

theorem undo_after_erasing_blank:
  "state_AE = run dots init (pen_A @ eraser_B) \<and>
   0 < currentHistoryIndex state_AE \<and>
   globalCompositeOperation (ctx state_AE) = DestinationOut \<and>
   pending (run dots state_AE [undo_key, ImageLoaded 0]) = [] \<and>
   currentHistoryIndex (run dots state_AE [undo_key, ImageLoaded 0]) = 0 \<and>
   js_index (history (run dots state_AE [undo_key, ImageLoaded 0])) 0 =
     DataURL {(100, 100), (200, 200)} \<and>
   bitmap (ctx (run dots state_AE [undo_key, ImageLoaded 0])) = {}"
proof -
  have "run dots state_AE [undo_key, ImageLoaded 0] =
        \<lparr>isDrawing = False, isEraser = False,
         history = [DataURL {(100, 100), (200, 200)}, DataURL {(100, 100)}],
         redoHistory = [DataURL {(100, 100)}], currentHistoryIndex = 0,
         ctx = \<lparr>bitmap = {}, globalCompositeOperation = DestinationOut, lineWidth = 20,
                path = [Subpath (200, 200) [(300, 300)] True, Subpath (200, 200) [] False]\<rparr>,
         pending = []\<rparr>"
    unfolding state_AE_eq by (simp add: eval_defs)
  moreover have "0 < currentHistoryIndex state_AE"
    "globalCompositeOperation (ctx state_AE) = DestinationOut"
    unfolding state_AE_eq by simp_all
  ultimately show ?thesis
    using state_AE_reachable by (simp add: js_index_def)
qed

subsection \<open>Undo followed by redo\<close>

text \<open>
  Claim C10, as the code behaves. In every reachable state with the cursor above 0, undo
  followed by redo, with the decodes completing in issue order (each before the next
  request, or both after the second request), appends the history entry at the cursor to
  the history once more and leaves the cursor where it was before the pair: undo
  decrements it and redo increments it. The entry at the cursor, the redo buffer and the
  pending decodes are unchanged. If the surface showed the entry at the cursor before the
  pair and compositing is source-over, the surface is unchanged as well.
\<close>

theorem undo_redo_pair:
  "let s = run cover init evs; i = currentHistoryIndex s; n = length (pending s);
       undo = KeyDown True False ''z''; redo = KeyDown True False ''y'';
       s' = run cover s [undo, ImageLoaded n, redo, ImageLoaded n]
   in 0 < i \<longrightarrow>
      history s' = history s @ [js_index (history s) i] \<and>
      currentHistoryIndex s' = i \<and>
      js_index (history s') i = js_index (history s) i \<and>
      redoHistory s' = redoHistory s \<and> pending s' = pending s \<and>
      run cover s [undo, redo, ImageLoaded n, ImageLoaded n] = s' \<and>
      (globalCompositeOperation (ctx s) = SourceOver \<and>
       js_index (history s) i = DataURL (bitmap (ctx s)) \<longrightarrow>
         bitmap (ctx s') = bitmap (ctx s))"
proof -
  define s where "s = run cover init evs"
  define i where "i = currentHistoryIndex s"
  define n where "n = length (pending s)"
  define m where "m = globalCompositeOperation (ctx s)"
  let ?undo = "KeyDown True False ''z''" and ?redo = "KeyDown True False ''y''"
  have inv: "hist_inv s" unfolding s_def by (rule reachable_hist_inv)
  then have u: "i \<le> int (length (history s)) - 1"
    and d: "list_all (\<lambda>v. v \<noteq> Undefined) (history s)"
    by (simp_all add: hist_inv_def idx_inv_def defined_inv_def i_def)
  have goal: "history s' = history s @ [js_index (history s) i] \<and>
      currentHistoryIndex s' = i \<and>
      js_index (history s') i = js_index (history s) i \<and>
      redoHistory s' = redoHistory s \<and> pending s' = pending s \<and>
      run cover s [?undo, ?redo, ImageLoaded n, ImageLoaded n] = s' \<and>
      (globalCompositeOperation (ctx s) = SourceOver \<and>
       js_index (history s) i = DataURL (bitmap (ctx s)) \<longrightarrow>
         bitmap (ctx s') = bitmap (ctx s))"
    if pos: "0 < i" and s': "s' = run cover s [?undo, ImageLoaded n, ?redo, ImageLoaded n]"
    for s'
  proof -
    from pos u have b: "nat (i - 1) < length (history s)" "nat i < length (history s)"
      by arith+
    with d have "history s ! nat (i - 1) \<noteq> Undefined" "history s ! nat i \<noteq> Undefined"
      by (simp_all add: list_all_length)
    then obtain img1 img2 where img1: "history s ! nat (i - 1) = DataURL img1"
      and img2: "history s ! nat i = DataURL img2"
      by (cases "history s ! nat (i - 1)"; cases "history s ! nat i") auto
    from pos u have ji: "js_index (history s) i = DataURL img2"
      by (simp add: js_index_def img2)
    define su where "su = s\<lparr>redoHistory := redoHistory s @ [DataURL img2],
                            currentHistoryIndex := i - 1,
                            pending := pending s @ [img1]\<rparr>"
    have 1: "undoLastStroke s = su"
      using undoLastStroke_eq [of s img1] pos u img1 img2
      by (simp add: i_def su_def)
    have r: "redoLastStroke t =
               t\<lparr>pending := pending t @ [img2], history := history t @ [DataURL img2],
                 currentHistoryIndex := currentHistoryIndex t + 1,
                 redoHistory := redoHistory s\<rparr>"
      if "redoHistory t = redoHistory s @ [DataURL img2]" for t
      using redoLastStroke_eq [of t img2] that by simp
    let ?c = "(ctx s)\<lparr>bitmap := composite_onto m img2 {}\<rparr>"
    have a: "s' = s\<lparr>history := history s @ [DataURL img2], ctx := ?c\<rparr>"
      unfolding s'
      by (simp add: handleKeyDown_def 1)
        (simp add: su_def n_def r onload_def drawImage_def clearRect_def m_def i_def)
    have b': "run cover s [?undo, ?redo, ImageLoaded n, ImageLoaded n] =
              s\<lparr>history := history s @ [DataURL img2], ctx := ?c\<rparr>"
      by (simp add: handleKeyDown_def 1)
        (simp add: su_def n_def r onload_def drawImage_def clearRect_def m_def i_def
          nth_append)
    from pos b(2) have "js_index (history s @ [DataURL img2]) i = DataURL img2"
      by (simp add: js_index_def nth_append img2)
    with ji show ?thesis
      unfolding b' a by (simp add: i_def m_def)
  qed
  show ?thesis
    unfolding Let_def s_def [symmetric] i_def [symmetric] n_def [symmetric]
    using goal by blast
qed

text \<open>The theorem at the state after two pen strokes.\<close>

theorem undo_redo_pair_witness:
  "0 < currentHistoryIndex state_AB \<and>
   globalCompositeOperation (ctx state_AB) = SourceOver \<and>
   js_index (history state_AB) (currentHistoryIndex state_AB) =
     DataURL (bitmap (ctx state_AB)) \<and>
   history (run dots state_AB [undo_key, ImageLoaded 0, redo_key, ImageLoaded 0]) =
     history state_AB @ [DataURL {(100, 100), (200, 200), (300, 300), (400, 400)}] \<and>
   currentHistoryIndex (run dots state_AB [undo_key, ImageLoaded 0, redo_key, ImageLoaded 0]) =
     currentHistoryIndex state_AB \<and>
   bitmap (ctx (run dots state_AB [undo_key, ImageLoaded 0, redo_key, ImageLoaded 0])) =
     bitmap (ctx state_AB)"
proof -
  have h1: "0 < currentHistoryIndex state_AB"
    and h2: "globalCompositeOperation (ctx state_AB) = SourceOver"
    and h3: "js_index (history state_AB) (currentHistoryIndex state_AB) =
             DataURL (bitmap (ctx state_AB))"
    and h4: "js_index (history state_AB) (currentHistoryIndex state_AB) =
             DataURL {(100, 100), (200, 200), (300, 300), (400, 400)}"
    and h5: "length (pending state_AB) = 0"
    unfolding state_AB_eq by (simp_all add: js_index_def)
  note w = undo_redo_pair [of dots "pen_A @ pen_B",
      unfolded Let_def state_AB_reachable [symmetric] h5, THEN mp, OF h1]
  note c1 = w [THEN conjunct1, unfolded h4]
  note c2 = w [THEN conjunct2, THEN conjunct1]
  note c3 = w [THEN conjunct2, THEN conjunct2, THEN conjunct2, THEN conjunct2,
      THEN conjunct2, THEN conjunct2, THEN mp, OF conjI, OF h2 h3]
  from h1 h2 h3 c1 c2 c3 show ?thesis
    unfolding undo_key_def redo_key_def by blast
qed

text \<open>
  Counterexample to claim C10 as stated: after two pen strokes the cursor is 1; after
  undo and redo, each with its decode completed, the cursor is 1 again, not 2.
\<close>

theorem undo_redo_index_counterexample:
  "0 < currentHistoryIndex state_AB \<and>
   currentHistoryIndex state_AB = 1 \<and>
   currentHistoryIndex (run dots state_AB [undo_key, ImageLoaded 0, redo_key, ImageLoaded 0]) =
     1 \<and>
   currentHistoryIndex (run dots state_AB [undo_key, ImageLoaded 0, redo_key, ImageLoaded 0]) \<noteq>
     currentHistoryIndex state_AB + 1"
  unfolding state_AB_eq by (simp add: eval_defs)

end
